theory Spec2Isabelle
  imports Complex_Main
begin

section \<open>The gallery slider of src/js/main.js (class GallerySlider)\<close>

subsection \<open>JavaScript numbers used as slide indices\<close>

text \<open>
  Every index the slider computes is an integer or, after a remainder by zero, NaN.
  \<open>js_plus\<close> is \<^verbatim>\<open>+\<close> and \<^verbatim>\<open>-\<close> with an integer operand, \<open>js_rem\<close> is
  JavaScript's \<^verbatim>\<open>%\<close> with a list length on the right: the result takes the sign of the
  dividend, and a remainder by zero is NaN.
\<close>

datatype jsnum = Num int | NaN

fun js_plus :: "jsnum \<Rightarrow> int \<Rightarrow> jsnum" where
  "js_plus (Num a) b = Num (a + b)"
| "js_plus NaN b = NaN"

fun js_rem :: "jsnum \<Rightarrow> nat \<Rightarrow> jsnum" where
  "js_rem (Num a) n = (if n = 0 then NaN else Num (sgn a * (\<bar>a\<bar> mod int n)))"
| "js_rem NaN n = NaN"

text \<open>
  Indexed access \<^verbatim>\<open>list[i]\<close> on a NodeList of length \<open>n\<close>: the position read when
  \<open>i\<close> is an integer in range, and \<open>None\<close> for \<^verbatim>\<open>undefined\<close> otherwise.
\<close>

fun array_index :: "nat \<Rightarrow> jsnum \<Rightarrow> nat option" where
  "array_index n (Num k) = (if 0 \<le> k \<and> k < int n then Some (nat k) else None)"
| "array_index n NaN = None"

subsection \<open>Elements, class lists and listeners\<close>

datatype error = TypeError

text \<open>
  The arrow functions that the class registers as listeners, one constructor for each:
  the two button handlers, the handler of dot \<open>index\<close>, the keyboard handler and the two
  touch handlers of \<^verbatim>\<open>init\<close>.
\<close>

datatype listener =
    On_prevSlide
  | On_nextSlide
  | On_showSlide nat
  | On_keydown
  | On_touchstart
  | On_touchend

record element =
  classList :: "string list"
  listeners :: "(string \<times> listener) list"

definition element_of :: "string list \<Rightarrow> element" where
  "element_of cl = \<lparr>classList = cl, listeners = []\<rparr>"

definition classList_contains :: "string \<Rightarrow> element \<Rightarrow> bool" where
  "classList_contains c e = (c \<in> set (classList e))"

definition classList_add :: "string \<Rightarrow> element \<Rightarrow> element" where
  "classList_add c e = (if c \<in> set (classList e) then e else e\<lparr>classList := classList e @ [c]\<rparr>)"

definition classList_remove :: "string \<Rightarrow> element \<Rightarrow> element" where
  "classList_remove c e = e\<lparr>classList := removeAll c (classList e)\<rparr>"

definition classList_toggle :: "string \<Rightarrow> bool \<Rightarrow> element \<Rightarrow> element" where
  "classList_toggle c force e = (if force then classList_add c e else classList_remove c e)"

definition addEventListener :: "string \<Rightarrow> listener \<Rightarrow> element \<Rightarrow> element" where
  "addEventListener ty l e = e\<lparr>listeners := listeners e @ [(ty, l)]\<rparr>"

abbreviation is_active :: "element \<Rightarrow> bool" where
  "is_active \<equiv> classList_contains ''active''"

abbreviation is_dot :: "element \<Rightarrow> bool" where
  "is_dot \<equiv> classList_contains ''slider-dot''"

subsection \<open>The state of a slider\<close>

text \<open>
  The fields of the object, then what its methods reach outside it: the keydown listeners
  of the document, the two variables \<^verbatim>\<open>touchStartX\<close> and \<^verbatim>\<open>touchEndX\<close> that the touch
  handlers close over, and the identifiers of the interval timers armed in the window.
  \<open>dotsContainer\<close> holds the children of the \<^verbatim>\<open>.slider-dots\<close> element, \<open>None\<close> when
  \<^verbatim>\<open>querySelector\<close> found no such element.
\<close>

record GallerySlider =
  slider :: "element option"
  slides :: "element list"
  prevBtn :: "element option"
  nextBtn :: "element option"
  dotsContainer :: "element list option"
  currentIndex :: jsnum
  autoPlayInterval :: "nat option"
  document_listeners :: "(string \<times> listener) list"
  touchStartX :: real
  touchEndX :: real
  timers :: "nat list"

text \<open>
  A method either returns (\<open>Inr\<close> the state it leaves) or throws (\<open>Inl\<close> the error and
  the state at the moment of the throw: the assignments made before it stay made).
\<close>

type_synonym outcome = "(error \<times> GallerySlider) + GallerySlider"

definition and_then :: "outcome \<Rightarrow> (GallerySlider \<Rightarrow> outcome) \<Rightarrow> outcome" where
  "and_then r f = (case r of Inl x \<Rightarrow> Inl x | Inr s \<Rightarrow> f s)"

subsection \<open>createDots, showSlide, nextSlide, prevSlide\<close>

definition new_dot :: "nat \<Rightarrow> element" where
  "new_dot index =
     addEventListener ''click'' (On_showSlide index) (classList_add ''slider-dot'' (element_of []))"

text \<open>
  The body of \<^verbatim>\<open>createDots\<close> runs once for each slide index; \<^verbatim>\<open>appendChild\<close> on a
  null container throws.
\<close>

fun createDots_from :: "nat list \<Rightarrow> GallerySlider \<Rightarrow> outcome" where
  "createDots_from [] s = Inr s"
| "createDots_from (index # rest) s =
     (case dotsContainer s of
        None \<Rightarrow> Inl (TypeError, s)
      | Some children \<Rightarrow>
          createDots_from rest (s\<lparr>dotsContainer := Some (children @ [new_dot index])\<rparr>))"

definition createDots :: "GallerySlider \<Rightarrow> outcome" where
  "createDots s = createDots_from [0..<length (slides s)] s"

text \<open>
  \<^verbatim>\<open>querySelectorAll('.slider-dot')\<close> followed by the \<^verbatim>\<open>forEach\<close> that toggles
  \<^verbatim>\<open>active\<close>: \<open>i\<close> counts the children met so far that carry the class
  \<^verbatim>\<open>slider-dot\<close>; the other children are left as they are.
\<close>

fun toggle_dots :: "nat \<Rightarrow> jsnum \<Rightarrow> element list \<Rightarrow> element list" where
  "toggle_dots i cur [] = []"
| "toggle_dots i cur (e # es) =
     (if is_dot e
      then classList_toggle ''active'' (Num (int i) = cur) e # toggle_dots (Suc i) cur es
      else e # toggle_dots i cur es)"

definition showSlide :: "jsnum \<Rightarrow> GallerySlider \<Rightarrow> outcome" where
  "showSlide index s =
     (let s1 = s\<lparr>slides := map (classList_remove ''active'') (slides s)\<rparr>;
          s2 = s1\<lparr>currentIndex := index\<rparr>
      in case array_index (length (slides s2)) (currentIndex s2) of
           None \<Rightarrow> Inl (TypeError, s2)
         | Some k \<Rightarrow>
             (let s3 = s2\<lparr>slides := (slides s2)[k := classList_add ''active'' (slides s2 ! k)]\<rparr>
              in case dotsContainer s3 of
                   None \<Rightarrow> Inl (TypeError, s3)
                 | Some children \<Rightarrow>
                     Inr (s3\<lparr>dotsContainer := Some (toggle_dots 0 (currentIndex s3) children)\<rparr>)))"

definition nextSlide :: "GallerySlider \<Rightarrow> outcome" where
  "nextSlide s =
     (let nextIndex = js_rem (js_plus (currentIndex s) 1) (length (slides s))
      in showSlide nextIndex s)"

definition prevSlide :: "GallerySlider \<Rightarrow> outcome" where
  "prevSlide s =
     (let prevIndex =
            js_rem (js_plus (js_plus (currentIndex s) (- 1)) (int (length (slides s))))
                   (length (slides s))
      in showSlide prevIndex s)"

subsection \<open>handleSwipe and the auto-play timer\<close>

definition handleSwipe :: "real \<Rightarrow> real \<Rightarrow> GallerySlider \<Rightarrow> outcome" where
  "handleSwipe startX endX s =
     (let threshold = 50; diff = startX - endX
      in if \<bar>diff\<bar> > threshold
         then (if diff > 0 then nextSlide s else prevSlide s)
         else Inr s)"

text \<open>
  \<^verbatim>\<open>setInterval\<close> arms a timer and returns its identifier, a positive integer that no
  armed timer has; \<^verbatim>\<open>clearInterval\<close> disarms the timer of that identifier.
\<close>

definition setInterval :: "nat list \<Rightarrow> nat" where
  "setInterval ts = Suc (fold max ts 0)"

definition startAutoPlay :: "GallerySlider \<Rightarrow> GallerySlider" where
  "startAutoPlay s =
     (let t = setInterval (timers s)
      in s\<lparr>timers := timers s @ [t], autoPlayInterval := Some t\<rparr>)"

definition stopAutoPlay :: "GallerySlider \<Rightarrow> GallerySlider" where
  "stopAutoPlay s =
     (case autoPlayInterval s of
        None \<Rightarrow> s
      | Some t \<Rightarrow>
          if t = 0 then s
          else s\<lparr>timers := removeAll t (timers s), autoPlayInterval := None\<rparr>)"

text \<open>The callback of the interval timer \<open>t\<close>, run when it fires.\<close>

definition tick :: "nat \<Rightarrow> GallerySlider \<Rightarrow> outcome" where
  "tick t s = (if t \<in> set (timers s) then nextSlide s else Inr s)"

subsection \<open>The constructor and init\<close>

text \<open>
  What the five selector queries of the constructor find in the page, each element given
  by its class list: \<open>None\<close> where \<^verbatim>\<open>querySelector\<close> returns null. \<open>slider_dots\<close>
  lists the children of the \<^verbatim>\<open>.slider-dots\<close> element. The elements found are taken to
  be distinct nodes, and none carries a listener before the constructor runs.
\<close>

record page =
  gallery_slider :: "string list option"
  gallery_slide :: "string list list"
  slider_btn_prev :: "string list option"
  slider_btn_next :: "string list option"
  slider_dots :: "string list list option"

definition init :: "GallerySlider \<Rightarrow> outcome" where
  "init s =
     and_then (createDots s) (\<lambda>s.
     and_then (showSlide (Num 0) s) (\<lambda>s.
       (let s = (case prevBtn s of
                   None \<Rightarrow> s
                 | Some b \<Rightarrow> s\<lparr>prevBtn := Some (addEventListener ''click'' On_prevSlide b)\<rparr>);
            s = (case nextBtn s of
                   None \<Rightarrow> s
                 | Some b \<Rightarrow> s\<lparr>nextBtn := Some (addEventListener ''click'' On_nextSlide b)\<rparr>);
            s = s\<lparr>document_listeners := document_listeners s @ [(''keydown'', On_keydown)]\<rparr>;
            s = s\<lparr>touchStartX := 0, touchEndX := 0\<rparr>
        in case slider s of
             None \<Rightarrow> Inl (TypeError, s)
           | Some el \<Rightarrow>
               Inr (s\<lparr>slider := Some (addEventListener ''touchend'' On_touchend
                                        (addEventListener ''touchstart'' On_touchstart el))\<rparr>))))"

text \<open>
  The assignments that open the constructor: the five query results, index 0 and no
  timer handle. Nothing is registered or armed yet.
\<close>

definition constructor_fields :: "page \<Rightarrow> GallerySlider" where
  "constructor_fields p =
     \<lparr>slider = map_option element_of (gallery_slider p),
      slides = map element_of (gallery_slide p),
      prevBtn = map_option element_of (slider_btn_prev p),
      nextBtn = map_option element_of (slider_btn_next p),
      dotsContainer = map_option (map element_of) (slider_dots p),
      currentIndex = Num 0,
      autoPlayInterval = None,
      document_listeners = [],
      touchStartX = 0,
      touchEndX = 0,
      timers = []\<rparr>"

definition new_GallerySlider :: "page \<Rightarrow> outcome" where
  "new_GallerySlider p =
     (let s = constructor_fields p
      in if slider s = None \<or> length (slides s) = 0 then Inr s else init s)"

subsection \<open>Events\<close>

text \<open>
  An event names the node it is dispatched at, its type and the two properties the
  handlers read: \<^verbatim>\<open>e.key\<close> and \<^verbatim>\<open>e.changedTouches[0].screenX\<close>. A screen coordinate
  is a JavaScript number and may have a fractional part: it is a real number here, and
  the subtraction and the comparisons that \<^verbatim>\<open>handleSwipe\<close> makes on coordinates are
  exact. \<open>Dot k\<close> is child \<open>k\<close> of the dots container.
\<close>

datatype node = Prev_button | Next_button | Dot nat | Slider | Document

record event =
  target :: node
  etype :: string
  key :: string
  screenX :: real

fun run_listener :: "listener \<Rightarrow> event \<Rightarrow> GallerySlider \<Rightarrow> outcome" where
  "run_listener On_prevSlide e s = prevSlide s"
| "run_listener On_nextSlide e s = nextSlide s"
| "run_listener (On_showSlide index) e s = showSlide (Num (int index)) s"
| "run_listener On_keydown e s =
     and_then (if key e = ''ArrowLeft'' then prevSlide s else Inr s) (\<lambda>s.
       if key e = ''ArrowRight'' then nextSlide s else Inr s)"
| "run_listener On_touchstart e s = Inr (s\<lparr>touchStartX := screenX e\<rparr>)"
| "run_listener On_touchend e s =
     (let s = s\<lparr>touchEndX := screenX e\<rparr> in handleSwipe (touchStartX s) (touchEndX s) s)"

definition listeners_at :: "node \<Rightarrow> GallerySlider \<Rightarrow> (string \<times> listener) list" where
  "listeners_at n s =
     (case n of
        Prev_button \<Rightarrow> (case prevBtn s of None \<Rightarrow> [] | Some b \<Rightarrow> listeners b)
      | Next_button \<Rightarrow> (case nextBtn s of None \<Rightarrow> [] | Some b \<Rightarrow> listeners b)
      | Dot k \<Rightarrow> (case dotsContainer s of
                    None \<Rightarrow> []
                  | Some children \<Rightarrow> if k < length children then listeners (children ! k) else [])
      | Slider \<Rightarrow> (case slider s of None \<Rightarrow> [] | Some el \<Rightarrow> listeners el)
      | Document \<Rightarrow> document_listeners s)"

text \<open>
  Dispatch runs the listeners registered at the target for the event's type, in the order
  of registration, each on the state the one before left; it stops at the first that
  throws.
\<close>

fun run_listeners :: "listener list \<Rightarrow> event \<Rightarrow> GallerySlider \<Rightarrow> outcome" where
  "run_listeners [] e s = Inr s"
| "run_listeners (l # ls) e s = and_then (run_listener l e s) (run_listeners ls e)"

definition dispatch :: "event \<Rightarrow> GallerySlider \<Rightarrow> outcome" where
  "dispatch e s =
     run_listeners (map snd (filter (\<lambda>r. fst r = etype e) (listeners_at (target e) s))) e s"

subsection \<open>Sequences of calls\<close>

text \<open>
  \<open>calls k f\<close> is \<open>k\<close> successive calls of the method \<open>f\<close>, stopped by the first
  that throws; \<open>visited k f\<close> lists the value of \<open>currentIndex\<close> after each of them.
\<close>

fun calls :: "nat \<Rightarrow> (GallerySlider \<Rightarrow> outcome) \<Rightarrow> GallerySlider \<Rightarrow> outcome" where
  "calls 0 f s = Inr s"
| "calls (Suc k) f s = and_then (f s) (calls k f)"

fun visited :: "nat \<Rightarrow> (GallerySlider \<Rightarrow> outcome) \<Rightarrow> GallerySlider \<Rightarrow> jsnum list" where
  "visited 0 f s = []"
| "visited (Suc k) f s =
     (case f s of Inl x \<Rightarrow> [] | Inr s' \<Rightarrow> currentIndex s' # visited k f s')"

subsection \<open>A page with three slides\<close>

definition example_page :: page where
  "example_page =
     \<lparr>gallery_slider = Some [''gallery-slider''],
      gallery_slide = [[''gallery-slide'', ''active''], [''gallery-slide''], [''gallery-slide'']],
      slider_btn_prev = Some [''slider-btn'', ''slider-btn-prev''],
      slider_btn_next = Some [''slider-btn'', ''slider-btn-next''],
      slider_dots = Some []\<rparr>"

text \<open>The slider that the constructor builds from this page.\<close>

definition example_deck :: GallerySlider where
  "example_deck =
     \<lparr>slider = Some \<lparr>classList = [''gallery-slider''],
                      listeners = [(''touchstart'', On_touchstart), (''touchend'', On_touchend)]\<rparr>,
      slides = [\<lparr>classList = [''gallery-slide'', ''active''], listeners = []\<rparr>,
                \<lparr>classList = [''gallery-slide''], listeners = []\<rparr>,
                \<lparr>classList = [''gallery-slide''], listeners = []\<rparr>],
      prevBtn = Some \<lparr>classList = [''slider-btn'', ''slider-btn-prev''],
                       listeners = [(''click'', On_prevSlide)]\<rparr>,
      nextBtn = Some \<lparr>classList = [''slider-btn'', ''slider-btn-next''],
                       listeners = [(''click'', On_nextSlide)]\<rparr>,
      dotsContainer =
        Some [\<lparr>classList = [''slider-dot'', ''active''], listeners = [(''click'', On_showSlide 0)]\<rparr>,
              \<lparr>classList = [''slider-dot''], listeners = [(''click'', On_showSlide 1)]\<rparr>,
              \<lparr>classList = [''slider-dot''], listeners = [(''click'', On_showSlide 2)]\<rparr>],
      currentIndex = Num 0,
      autoPlayInterval = None,
      document_listeners = [(''keydown'', On_keydown)],
      touchStartX = 0,
      touchEndX = 0,
      timers = []\<rparr>"

subsection \<open>What a slider displays\<close>

text \<open>
  The indicators are what \<^verbatim>\<open>querySelectorAll('.slider-dot')\<close> finds in the dots
  container, in document order. \<open>active_positions es\<close> lists the positions of the elements
  of \<open>es\<close> that carry the class \<^verbatim>\<open>active\<close>: it is \<open>[i]\<close> exactly when element \<open>i\<close> is
  active and every other element is not.
\<close>

definition indicators :: "GallerySlider \<Rightarrow> element list" where
  "indicators s = (case dotsContainer s of None \<Rightarrow> [] | Some children \<Rightarrow> filter is_dot children)"

definition active_positions :: "element list \<Rightarrow> nat list" where
  "active_positions es = filter (\<lambda>j. is_active (es ! j)) [0..<length es]"

text \<open>
  \<open>displays i s\<close>: slide \<open>i\<close> and indicator \<open>i\<close> are the only active ones and
  \<open>currentIndex\<close> is \<open>i\<close>. \<open>in_sync s\<close>: this holds of the current index.
\<close>

definition displays :: "nat \<Rightarrow> GallerySlider \<Rightarrow> bool" where
  "displays i s =
     (currentIndex s = Num (int i)
      \<and> active_positions (slides s) = [i]
      \<and> active_positions (indicators s) = [i])"

definition in_sync :: "GallerySlider \<Rightarrow> bool" where
  "in_sync s = (case currentIndex s of Num c \<Rightarrow> 0 \<le> c \<and> displays (nat c) s | NaN \<Rightarrow> False)"

text \<open>
  A slide deck in the sense of the data model: at least one slide, a dots container, and
  an indicator for every slide (\<^verbatim>\<open>createDots\<close> appends one per slide to whatever the
  container already holds).
\<close>

definition deck :: "GallerySlider \<Rightarrow> bool" where
  "deck s = (slides s \<noteq> [] \<and> dotsContainer s \<noteq> None
             \<and> length (slides s) \<le> length (indicators s))"

text \<open>An index in \<open>[0, n - 1]\<close>.\<close>

fun in_range :: "nat \<Rightarrow> jsnum \<Rightarrow> bool" where
  "in_range n (Num k) = (0 \<le> k \<and> k < int n)"
| "in_range n NaN = False"





definition click :: "node \<Rightarrow> event" where
  "click n = \<lparr>target = n, etype = ''click'', key = [], screenX = 0\<rparr>"

definition keydown :: "string \<Rightarrow> event" where
  "keydown k = \<lparr>target = Document, etype = ''keydown'', key = k, screenX = 0\<rparr>"

subsection \<open>Two more pages\<close>

text \<open>A page with no slide, and a page with two slides and no \<^verbatim>\<open>.slider-dots\<close> element.\<close>

definition empty_page :: page where
  "empty_page =
     \<lparr>gallery_slider = Some [''gallery-slider''],
      gallery_slide = [],
      slider_btn_prev = Some [''slider-btn'', ''slider-btn-prev''],
      slider_btn_next = Some [''slider-btn'', ''slider-btn-next''],
      slider_dots = Some []\<rparr>"

definition page_without_dots :: page where
  "page_without_dots =
     \<lparr>gallery_slider = Some [''gallery-slider''],
      gallery_slide = [[''gallery-slide''], [''gallery-slide'']],
      slider_btn_prev = Some [''slider-btn'', ''slider-btn-prev''],
      slider_btn_next = Some [''slider-btn'', ''slider-btn-next''],
      slider_dots = None\<rparr>"

section \<open>Index arithmetic of showSlide, nextSlide and prevSlide\<close>

lemma js_rem_nonneg: "0 \<le> a \<Longrightarrow> 0 < n \<Longrightarrow> js_rem (Num a) n = Num (a mod int n)"
  by (simp add: sgn_if)

lemma showSlide_in_range:
  assumes "array_index (length (slides s)) index = Some k" and "dotsContainer s = Some cs"
  shows "showSlide index s =
     Inr (s\<lparr>slides := (map (classList_remove ''active'') (slides s))
                         [k := classList_add ''active'' (classList_remove ''active'' (slides s ! k))],
            currentIndex := index,
            dotsContainer := Some (toggle_dots 0 index cs)\<rparr>)"
proof -
  from assms(1) have "k < length (slides s)"
    by (cases index) (auto split: if_splits)
  with assms show ?thesis
    by (simp add: showSlide_def Let_def)
qed

lemma nextSlide_index:
  assumes "currentIndex s = Num c" "0 \<le> c" "c < int (length (slides s))" "dotsContainer s \<noteq> None"
  shows "\<exists>s'. nextSlide s = Inr s' \<and> currentIndex s' = Num ((c + 1) mod int (length (slides s)))
            \<and> length (slides s') = length (slides s) \<and> dotsContainer s' \<noteq> None"
proof -
  let ?n = "length (slides s)"
  from assms obtain cs where cs: "dotsContainer s = Some cs" by auto
  have n: "0 < ?n" using assms by auto
  have r: "js_rem (js_plus (currentIndex s) 1) ?n = Num ((c + 1) mod int ?n)"
    using assms n by (simp add: js_rem_nonneg)
  have "0 \<le> (c + 1) mod int ?n" "(c + 1) mod int ?n < int ?n" using n by simp_all
  then have a: "array_index ?n (Num ((c + 1) mod int ?n)) = Some (nat ((c + 1) mod int ?n))"
    by simp
  show ?thesis
    unfolding nextSlide_def Let_def r
    by (simp add: showSlide_in_range[OF a cs])
qed

lemma prevSlide_index:
  assumes "currentIndex s = Num c" "0 \<le> c" "c < int (length (slides s))" "dotsContainer s \<noteq> None"
  shows "\<exists>s'. prevSlide s = Inr s' \<and> currentIndex s' = Num ((c + (- 1)) mod int (length (slides s)))
            \<and> length (slides s') = length (slides s) \<and> dotsContainer s' \<noteq> None"
proof -
  let ?n = "length (slides s)"
  from assms obtain cs where cs: "dotsContainer s = Some cs" by auto
  have n: "0 < ?n" using assms by auto
  have "0 \<le> c - 1 + int ?n" using assms by simp
  then have "js_rem (Num (c - 1 + int ?n)) ?n = Num ((c - 1 + int ?n) mod int ?n)"
    using n by (rule js_rem_nonneg)
  then have r: "js_rem (js_plus (js_plus (currentIndex s) (- 1)) (int ?n)) ?n = Num ((c - 1) mod int ?n)"
    using assms by (simp del: js_rem.simps)
  have "0 \<le> (c - 1) mod int ?n" "(c - 1) mod int ?n < int ?n" using n by simp_all
  then have a: "array_index ?n (Num ((c - 1) mod int ?n)) = Some (nat ((c - 1) mod int ?n))"
    by simp
  show ?thesis
    unfolding prevSlide_def Let_def r
    by (simp add: showSlide_in_range[OF a cs])
qed


lemma step_mod: "((c + d) mod n + int j * d) mod n = (c + int (Suc j) * d) mod (n::int)"
proof -
  have "((c + d) mod n + int j * d) mod n = (c + d + int j * d) mod n"
    by (rule mod_add_left_eq)
  also have "c + d + int j * d = c + int (Suc j) * d" by (simp add: algebra_simps)
  finally show ?thesis .
qed

lemma upt_from_1: "[1..<Suc (Suc k)] = 1 # map Suc [1..<Suc k]"
  by (simp add: upt_conv_Cons map_Suc_upt del: upt_Suc)

text \<open>
  A method that moves the index by \<open>d\<close> modulo the slide count, called \<open>k\<close> times.
\<close>

lemma calls_index:
  assumes step: "\<And>s c. currentIndex s = Num c \<Longrightarrow> 0 \<le> c \<Longrightarrow> c < int (length (slides s)) \<Longrightarrow>
                   dotsContainer s \<noteq> None \<Longrightarrow>
                   \<exists>s'. f s = Inr s' \<and> currentIndex s' = Num ((c + d) mod int (length (slides s)))
                      \<and> length (slides s') = length (slides s) \<and> dotsContainer s' \<noteq> None"
    and "currentIndex s = Num c" "0 \<le> c" "c < int (length (slides s))" "dotsContainer s \<noteq> None"
  shows "(\<exists>s'. calls k f s = Inr s'
            \<and> currentIndex s' = Num ((c + int k * d) mod int (length (slides s)))
            \<and> length (slides s') = length (slides s) \<and> dotsContainer s' \<noteq> None)
       \<and> visited k f s = map (\<lambda>j. Num ((c + int j * d) mod int (length (slides s)))) [1..<Suc k]"
  using assms(2-)
proof (induction k arbitrary: s c)
  case 0
  then show ?case by simp
next
  case (Suc k)
  let ?n = "int (length (slides s))"
  from step[OF Suc.prems] obtain s1 where
    s1: "f s = Inr s1" "currentIndex s1 = Num ((c + d) mod ?n)"
        "length (slides s1) = length (slides s)" "dotsContainer s1 \<noteq> None"
    by blast
  have n: "0 < ?n" using Suc.prems by linarith
  have "0 \<le> (c + d) mod ?n" "(c + d) mod ?n < int (length (slides s1))"
    using n s1(3) by simp_all
  from Suc.IH[OF s1(2) this s1(4)] obtain s' where
    s': "calls k f s1 = Inr s'"
        "currentIndex s' = Num (((c + d) mod ?n + int k * d) mod ?n)"
        "length (slides s') = length (slides s)" "dotsContainer s' \<noteq> None"
    and v: "visited k f s1 = map (\<lambda>j. Num (((c + d) mod ?n + int j * d) mod ?n)) [1..<Suc k]"
    using s1(3) by auto
  have first: "(c + d) mod ?n = (c + int (Suc 0) * d) mod ?n" by simp
  have "calls (Suc k) f s = Inr s'" using s1(1) s'(1) by (simp add: and_then_def)
  moreover have "currentIndex s' = Num ((c + int (Suc k) * d) mod ?n)"
    using s'(2) by (simp only: step_mod)
  moreover have "visited (Suc k) f s = map (\<lambda>j. Num ((c + int j * d) mod ?n)) [1..<Suc (Suc k)]"
    unfolding upt_from_1 using s1(1,2) v
    by (simp add: step_mod comp_def first[symmetric] del: upt_Suc of_nat_Suc)
  ultimately show ?case using s'(3,4) by blast
qed


section \<open>Navigation by nextSlide and prevSlide\<close>

text \<open>
  Claim C1. On a slider with \<open>N \<ge> 1\<close> slides, a dots container and \<open>currentIndex = 0\<close>, any
  number \<open>k\<close> of successive \<^verbatim>\<open>nextSlide()\<close> calls all return and leave
  \<open>currentIndex = k mod N\<close>, and \<open>k\<close> successive \<^verbatim>\<open>prevSlide()\<close> calls leave
  \<open>currentIndex = (-k) mod N\<close>; the index after the \<open>j\<close>-th call is \<open>j mod N\<close>
  (respectively \<open>(-j) mod N\<close>), so it stays in \<open>[0, N-1]\<close> throughout. With three slides,
  three \<^verbatim>\<open>nextSlide()\<close> calls visit the indices 1, 2, 0.
\<close>

theorem C1_k_calls_from_index_0:
  assumes "slides s \<noteq> []" and "dotsContainer s \<noteq> None" and "currentIndex s = Num 0"
  shows "(\<exists>s'. calls k nextSlide s = Inr s'
              \<and> currentIndex s' = Num (int k mod int (length (slides s))))
       \<and> (\<exists>s'. calls k prevSlide s = Inr s'
              \<and> currentIndex s' = Num ((- int k) mod int (length (slides s))))
       \<and> visited k nextSlide s = map (\<lambda>j. Num (int j mod int (length (slides s)))) [1..<Suc k]
       \<and> visited k prevSlide s = map (\<lambda>j. Num ((- int j) mod int (length (slides s)))) [1..<Suc k]
       \<and> 0 \<le> int k mod int (length (slides s))
       \<and> int k mod int (length (slides s)) < int (length (slides s))
       \<and> 0 \<le> (- int k) mod int (length (slides s))
       \<and> (- int k) mod int (length (slides s)) < int (length (slides s))
       \<and> (length (slides s) = 3 \<longrightarrow> visited 3 nextSlide s = [Num 1, Num 2, Num 0])"
proof -
  let ?n = "int (length (slides s))"
  have n: "0 < ?n" using assms(1) by simp
  have z: "(0::int) \<le> 0" by simp
  note nx = calls_index[of nextSlide 1, OF nextSlide_index assms(3) z n assms(2)]
  note pv = calls_index[of prevSlide "- 1", OF prevSlide_index assms(3) z n assms(2)]
  have a: "\<exists>s'. calls k nextSlide s = Inr s' \<and> currentIndex s' = Num (int k mod ?n)"
    using nx[of k] by auto
  have b: "\<exists>s'. calls k prevSlide s = Inr s' \<and> currentIndex s' = Num ((- int k) mod ?n)"
    using pv[of k] by auto
  have c: "visited k nextSlide s = map (\<lambda>j. Num (int j mod ?n)) [1..<Suc k]" for k
    using nx[of k] by simp
  have d: "visited k prevSlide s = map (\<lambda>j. Num ((- int j) mod ?n)) [1..<Suc k]"
    using pv[of k] by simp
  have e: "length (slides s) = 3 \<longrightarrow> visited 3 nextSlide s = [Num 1, Num 2, Num 0]"
  proof
    assume "length (slides s) = 3"
    moreover have "[1..<Suc 3] = [1, 2, 3]" by (simp add: upt_conv_Cons)
    ultimately show "visited 3 nextSlide s = [Num 1, Num 2, Num 0]"
      unfolding c[of 3] by simp
  qed
  have r: "0 \<le> int k mod ?n" "int k mod ?n < ?n" "0 \<le> (- int k) mod ?n" "(- int k) mod ?n < ?n"
    using n by simp_all
  from a b c[of k] d e r show ?thesis by blast
qed


text \<open>The theorem at the slider built from the three-slide page, with four calls.\<close>

theorem C1_witness:
  "slides example_deck \<noteq> [] \<and> dotsContainer example_deck \<noteq> None
   \<and> currentIndex example_deck = Num 0
   \<and> (\<exists>s'. calls 4 nextSlide example_deck = Inr s' \<and> currentIndex s' = Num 1)
   \<and> (\<exists>s'. calls 4 prevSlide example_deck = Inr s' \<and> currentIndex s' = Num 2)
   \<and> visited 4 nextSlide example_deck = [Num 1, Num 2, Num 0, Num 1]
   \<and> visited 4 prevSlide example_deck = [Num 2, Num 1, Num 0, Num 2]
   \<and> length (slides example_deck) = 3
   \<and> visited 3 nextSlide example_deck = [Num 1, Num 2, Num 0]"
proof -
  have h1: "slides example_deck \<noteq> []" by (simp add: example_deck_def)
  have h2: "dotsContainer example_deck \<noteq> None" by (simp add: example_deck_def)
  have h3: "currentIndex example_deck = Num 0" by (simp add: example_deck_def)
  have n: "length (slides example_deck) = 3" by (simp add: example_deck_def)
  have u: "[1..<Suc 4] = [1, 2, 3, 4]" by (simp add: upt_conv_Cons)
  show ?thesis
    using C1_k_calls_from_index_0[OF h1 h2 h3, of 4] h1 h2 h3 n u by simp
qed

section \<open>The active slide and the active indicator\<close>

lemma is_active_add [simp]: "is_active (classList_add ''active'' e)"
  by (simp add: classList_add_def classList_contains_def)

lemma is_active_remove [simp]: "\<not> is_active (classList_remove ''active'' e)"
  by (simp add: classList_remove_def classList_contains_def)

lemma is_active_toggle [simp]: "is_active (classList_toggle ''active'' b e) = b"
  by (simp add: classList_toggle_def)

lemma is_dot_toggle [simp]: "is_dot (classList_toggle ''active'' b e) = is_dot e"
  by (simp add: classList_toggle_def classList_add_def classList_remove_def classList_contains_def)

lemma filter_is_index: "k < n \<Longrightarrow> filter (\<lambda>j. j = k) [0..<n] = [k]"
proof (induction n)
  case 0
  then show ?case by simp
next
  case (Suc n)
  show ?case
  proof (cases "k = n")
    case True
    have "filter (\<lambda>j. j = n) [0..<n] = []" by (simp add: filter_empty_conv)
    with True show ?thesis by simp
  next
    case False
    with Suc have "filter (\<lambda>j. j = k) [0..<n] = [k]" by simp
    with False show ?thesis by simp
  qed
qed

lemma active_positions_single:
  assumes "k < length es" and "\<And>j. j < length es \<Longrightarrow> is_active (es ! j) = (j = k)"
  shows "active_positions es = [k]"
proof -
  have "filter (\<lambda>j. is_active (es ! j)) [0..<length es] = filter (\<lambda>j. j = k) [0..<length es]"
    by (rule filter_cong) (simp_all add: assms(2))
  then show ?thesis by (simp add: active_positions_def filter_is_index[OF assms(1)])
qed

lemma toggle_dots_filter:
  "filter is_dot (toggle_dots i cur cs) =
     map (\<lambda>(j, e). classList_toggle ''active'' (Num (int j) = cur) e)
         (zip [i..<i + length (filter is_dot cs)] (filter is_dot cs))"
proof (induction cs arbitrary: i)
  case Nil
  then show ?case by simp
next
  case (Cons e es)
  show ?case
  proof (cases "is_dot e")
    case True
    have "[i..<i + Suc (length (filter is_dot es))] = i # [Suc i..<i + Suc (length (filter is_dot es))]"
      by (rule upt_conv_Cons) simp
    then have "[i..<i + Suc (length (filter is_dot es))] = i # [Suc i..<Suc i + length (filter is_dot es)]"
      by (simp only: add_Suc_right add_Suc)
    with True Cons[of "Suc i"] show ?thesis by (simp del: upt_Suc)
  next
    case False
    with Cons[of i] show ?thesis by simp
  qed
qed

lemma length_toggle_dots [simp]: "length (toggle_dots i cur cs) = length cs"
  by (induction cs arbitrary: i) simp_all

lemma toggle_dots_active:
  assumes "j < length (filter is_dot cs)"
  shows "is_active (filter is_dot (toggle_dots 0 cur cs) ! j) = (Num (int j) = cur)"
  using assms by (simp add: toggle_dots_filter)

lemma toggle_dots_count: "length (filter is_dot (toggle_dots i cur cs)) = length (filter is_dot cs)"
  by (simp add: toggle_dots_filter)


lemma showSlide_displays:
  assumes "deck s" and "i < length (slides s)"
  shows "\<exists>s'. showSlide (Num (int i)) s = Inr s' \<and> displays i s' \<and> deck s'
            \<and> length (slides s') = length (slides s)
            \<and> length (indicators s') = length (indicators s)"
proof -
  from assms(1) obtain cs where cs: "dotsContainer s = Some cs"
    by (auto simp: deck_def)
  let ?xs = "(map (classList_remove ''active'') (slides s))
               [i := classList_add ''active'' (classList_remove ''active'' (slides s ! i))]"
  let ?ds = "toggle_dots 0 (Num (int i)) cs"
  let ?s' = "s\<lparr>slides := ?xs, currentIndex := Num (int i), dotsContainer := Some ?ds\<rparr>"
  have a: "array_index (length (slides s)) (Num (int i)) = Some i"
    using assms(2) by simp
  have run: "showSlide (Num (int i)) s = Inr ?s'"
    by (rule showSlide_in_range[OF a cs])
  have n: "length (slides s) \<le> length (filter is_dot cs)"
    using assms(1) cs by (simp add: deck_def indicators_def)
  have sl: "active_positions ?xs = [i]"
  proof (rule active_positions_single)
    show "i < length ?xs" using assms(2) by simp
  next
    fix j assume "j < length ?xs"
    then show "is_active (?xs ! j) = (j = i)"
      by (cases "j = i") (simp_all add: nth_list_update)
  qed
  have ind: "active_positions (filter is_dot ?ds) = [i]"
  proof (rule active_positions_single)
    show "i < length (filter is_dot ?ds)" using assms(2) n by (simp add: toggle_dots_count)
  next
    fix j assume "j < length (filter is_dot ?ds)"
    then have "j < length (filter is_dot cs)" by (simp add: toggle_dots_count)
    then show "is_active (filter is_dot ?ds ! j) = (j = i)"
      by (simp add: toggle_dots_active)
  qed
  have d: "displays i ?s'"
    using sl ind by (simp add: displays_def indicators_def)
  have k: "deck ?s'"
    using assms(1) n by (simp add: deck_def indicators_def toggle_dots_count)
  have l: "length (indicators ?s') = length (indicators s)"
    using cs by (simp add: indicators_def toggle_dots_count)
  from run d k l show ?thesis by simp
qed

lemma displays_in_sync: "displays i s \<Longrightarrow> in_sync s"
  by (simp add: in_sync_def displays_def)

lemma in_sync_index:
  assumes "in_sync s"
  shows "\<exists>i. currentIndex s = Num (int i) \<and> i < length (slides s) \<and> displays i s"
proof -
  from assms obtain c where c: "currentIndex s = Num c" "0 \<le> c" "displays (nat c) s"
    by (auto simp: in_sync_def split: jsnum.splits)
  then have "active_positions (slides s) = [nat c]" by (simp add: displays_def)
  then have "nat c \<in> set (filter (\<lambda>j. is_active (slides s ! j)) [0..<length (slides s)])"
    by (simp add: active_positions_def)
  then have "nat c < length (slides s)" by simp
  with c show ?thesis by (intro exI[of _ "nat c"]) simp
qed

lemma nextSlide_eq:
  assumes "currentIndex s = Num c" and "0 \<le> c" and "slides s \<noteq> []"
  shows "nextSlide s = showSlide (Num ((c + 1) mod int (length (slides s)))) s"
proof -
  have "js_rem (Num (c + 1)) (length (slides s)) = Num ((c + 1) mod int (length (slides s)))"
    using assms by (intro js_rem_nonneg) simp_all
  then show ?thesis using assms(1) by (simp add: nextSlide_def del: js_rem.simps)
qed

lemma prevSlide_eq:
  assumes "currentIndex s = Num c" and "0 \<le> c" and "slides s \<noteq> []"
  shows "prevSlide s = showSlide (Num ((c - 1) mod int (length (slides s)))) s"
proof -
  let ?n = "length (slides s)"
  have "0 < ?n" using assms(3) by simp
  then have "0 \<le> c - 1 + int ?n" using assms(2) by linarith
  then have "js_rem (Num (c - 1 + int ?n)) ?n = Num ((c - 1 + int ?n) mod int ?n)"
    using \<open>0 < ?n\<close> by (rule js_rem_nonneg)
  then show ?thesis using assms(1) by (simp add: prevSlide_def del: js_rem.simps)
qed

lemma active_positions_single_iff:
  "active_positions es = [k] \<longleftrightarrow>
     k < length es \<and> (\<forall>j < length es. is_active (es ! j) = (j = k))"
proof
  assume a: "active_positions es = [k]"
  then have s: "set (filter (\<lambda>j. is_active (es ! j)) [0..<length es]) = {k}"
    by (simp add: active_positions_def)
  then have "k \<in> set (filter (\<lambda>j. is_active (es ! j)) [0..<length es])" by simp
  then have k: "k < length es" "is_active (es ! k)" by simp_all
  have "is_active (es ! j) = (j = k)" if "j < length es" for j
  proof
    assume "is_active (es ! j)"
    with that have "j \<in> set (filter (\<lambda>j. is_active (es ! j)) [0..<length es])" by simp
    with s show "j = k" by simp
  next
    assume "j = k" with k show "is_active (es ! j)" by simp
  qed
  with k show "k < length es \<and> (\<forall>j < length es. is_active (es ! j) = (j = k))" by blast
next
  assume "k < length es \<and> (\<forall>j < length es. is_active (es ! j) = (j = k))"
  then show "active_positions es = [k]" by (intro active_positions_single) simp_all
qed

lemma example_deck_ok: "deck example_deck" "in_sync example_deck"
  by (simp_all add: deck_def in_sync_def displays_def indicators_def active_positions_def
      example_deck_def classList_contains_def upt_conv_Cons)

text \<open>
  Claim C2. On a slide deck (at least one slide, a dots container with an indicator for
  every slide) and for every valid index \<open>i\<close>, \<^verbatim>\<open>showSlide(i)\<close> returns and leaves
  \<open>currentIndex = i\<close>, slide \<open>i\<close> the only active slide and indicator \<open>i\<close> the only active
  indicator, whatever was displayed before. The condition "exactly one slide and one
  indicator active, both at \<open>currentIndex\<close>" (\<open>in_sync\<close>) therefore holds after every
  \<^verbatim>\<open>showSlide\<close> with a valid index, and \<^verbatim>\<open>nextSlide()\<close> and \<^verbatim>\<open>prevSlide()\<close> preserve it.
\<close>

theorem C2_exactly_one_active:
  assumes "deck s" and "i < length (slides s)"
  shows "(\<exists>s'. showSlide (Num (int i)) s = Inr s' \<and> deck s'
              \<and> currentIndex s' = Num (int i)
              \<and> active_positions (slides s') = [i]
              \<and> active_positions (indicators s') = [i]
              \<and> in_sync s')
       \<and> (in_sync s \<longrightarrow>
             (\<exists>s'. nextSlide s = Inr s' \<and> deck s' \<and> in_sync s')
           \<and> (\<exists>s'. prevSlide s = Inr s' \<and> deck s' \<and> in_sync s'))"
proof (intro conjI impI)
  from showSlide_displays[OF assms] obtain s' where
    "showSlide (Num (int i)) s = Inr s'" "displays i s'" "deck s'"
    by blast
  then show "\<exists>s'. showSlide (Num (int i)) s = Inr s' \<and> deck s'
              \<and> currentIndex s' = Num (int i)
              \<and> active_positions (slides s') = [i]
              \<and> active_positions (indicators s') = [i]
              \<and> in_sync s'"
    using displays_in_sync[of i s'] by (auto simp: displays_def)
next
  assume "in_sync s"
  then obtain c where c: "currentIndex s = Num (int c)" "c < length (slides s)"
    using in_sync_index by blast
  let ?n = "int (length (slides s))"
  have ne: "slides s \<noteq> []" using assms(1) by (simp add: deck_def)
  have n: "0 < ?n" using ne by simp
  have "0 \<le> (int c + 1) mod ?n" "(int c + 1) mod ?n < ?n" using n by simp_all
  then have j: "nat ((int c + 1) mod ?n) < length (slides s)"
    "Num ((int c + 1) mod ?n) = Num (int (nat ((int c + 1) mod ?n)))" by simp_all
  from showSlide_displays[OF assms(1) j(1)] displays_in_sync
  show "\<exists>s'. nextSlide s = Inr s' \<and> deck s' \<and> in_sync s'"
    unfolding nextSlide_eq[OF c(1) _ ne, simplified] j(2) by blast
  have "0 \<le> (int c - 1) mod ?n" "(int c - 1) mod ?n < ?n" using n by simp_all
  then have j: "nat ((int c - 1) mod ?n) < length (slides s)"
    "Num ((int c - 1) mod ?n) = Num (int (nat ((int c - 1) mod ?n)))" by simp_all
  from showSlide_displays[OF assms(1) j(1)] displays_in_sync
  show "\<exists>s'. prevSlide s = Inr s' \<and> deck s' \<and> in_sync s'"
    unfolding prevSlide_eq[OF c(1) _ ne, simplified] j(2) by blast
qed


text \<open>The theorem at the slider built from the three-slide page, with \<open>i = 1\<close>.\<close>

theorem C2_witness:
  "deck example_deck \<and> 1 < length (slides example_deck) \<and> in_sync example_deck
   \<and> (\<exists>s'. showSlide (Num 1) example_deck = Inr s' \<and> deck s' \<and> currentIndex s' = Num 1
          \<and> active_positions (slides s') = [1] \<and> active_positions (indicators s') = [1]
          \<and> in_sync s')
   \<and> (\<exists>s'. nextSlide example_deck = Inr s' \<and> deck s' \<and> in_sync s')
   \<and> (\<exists>s'. prevSlide example_deck = Inr s' \<and> deck s' \<and> in_sync s')"
proof -
  have h1: "deck example_deck" by (rule example_deck_ok)
  have h2: "1 < length (slides example_deck)" by (simp add: example_deck_def)
  have h3: "in_sync example_deck" by (rule example_deck_ok)
  show ?thesis
    using C2_exactly_one_active[OF h1 h2] h1 h2 h3 by simp
qed

section \<open>Wraparound and round trips\<close>

text \<open>
  Claim C6. On a slider with \<open>N \<ge> 1\<close> slides and a dots container, \<^verbatim>\<open>nextSlide()\<close> at
  \<open>currentIndex = N - 1\<close> returns with \<open>currentIndex = 0\<close>, and \<^verbatim>\<open>prevSlide()\<close> at
  \<open>currentIndex = 0\<close> returns with \<open>currentIndex = N - 1\<close>.
\<close>

theorem C6_wraparound:
  assumes "slides s \<noteq> []" and "dotsContainer s \<noteq> None"
  shows "(currentIndex s = Num (int (length (slides s)) - 1) \<longrightarrow>
            (\<exists>s'. nextSlide s = Inr s' \<and> currentIndex s' = Num 0
                  \<and> length (slides s') = length (slides s) \<and> dotsContainer s' \<noteq> None))
       \<and> (currentIndex s = Num 0 \<longrightarrow>
            (\<exists>s'. prevSlide s = Inr s' \<and> currentIndex s' = Num (int (length (slides s)) - 1)
                  \<and> length (slides s') = length (slides s) \<and> dotsContainer s' \<noteq> None))"
proof -
  let ?n = "int (length (slides s))"
  have n: "0 < ?n" using assms(1) by simp
  have a: "\<exists>s'. nextSlide s = Inr s' \<and> currentIndex s' = Num 0
                  \<and> length (slides s') = length (slides s) \<and> dotsContainer s' \<noteq> None"
    if c: "currentIndex s = Num (?n - 1)"
  proof -
    have "0 \<le> ?n - 1" "?n - 1 < ?n" using n by simp_all
    from nextSlide_index[OF c this assms(2)] show ?thesis by auto
  qed
  have b: "\<exists>s'. prevSlide s = Inr s' \<and> currentIndex s' = Num (?n - 1)
                  \<and> length (slides s') = length (slides s) \<and> dotsContainer s' \<noteq> None"
    if c: "currentIndex s = Num 0"
  proof -
    have m: "(- 1) mod ?n = ?n - 1" using n by (simp add: zmod_minus1)
    from prevSlide_index[OF c _ n assms(2)] show ?thesis by (auto simp: m)
  qed
  from a b show ?thesis by blast
qed

text \<open>
  At the three-slide slider: \<^verbatim>\<open>prevSlide()\<close> from index 0 reaches index 2, and
  \<^verbatim>\<open>nextSlide()\<close> from there reaches index 0 again.
\<close>

theorem C6_witness:
  "slides example_deck \<noteq> [] \<and> dotsContainer example_deck \<noteq> None
   \<and> currentIndex example_deck = Num 0
   \<and> (\<exists>s1. prevSlide example_deck = Inr s1 \<and> slides s1 \<noteq> [] \<and> dotsContainer s1 \<noteq> None
          \<and> currentIndex s1 = Num 2 \<and> currentIndex s1 = Num (int (length (slides s1)) - 1)
          \<and> (\<exists>s2. nextSlide s1 = Inr s2 \<and> currentIndex s2 = Num 0))"
proof -
  have h1: "slides example_deck \<noteq> []" by (simp add: example_deck_def)
  have h2: "dotsContainer example_deck \<noteq> None" by (simp add: example_deck_def)
  have h3: "currentIndex example_deck = Num 0" by (simp add: example_deck_def)
  have n: "length (slides example_deck) = 3" by (simp add: example_deck_def)
  from C6_wraparound[OF h1 h2] h3 n obtain s1 where
    s1: "prevSlide example_deck = Inr s1" "currentIndex s1 = Num 2"
        "length (slides s1) = 3" "dotsContainer s1 \<noteq> None"
    by auto
  have g1: "slides s1 \<noteq> []" using s1(3) by auto
  have g3: "currentIndex s1 = Num (int (length (slides s1)) - 1)" using s1(2,3) by simp
  from C6_wraparound[OF g1 s1(4)] g3 obtain s2 where
    "nextSlide s1 = Inr s2" "currentIndex s2 = Num 0"
    by auto
  with h1 h2 h3 s1 g1 g3 show ?thesis by auto
qed

text \<open>
  Claim C9. On a slider with \<open>N \<ge> 1\<close> slides, a dots container and a current index in
  \<open>[0, N - 1]\<close>, \<^verbatim>\<open>nextSlide()\<close> followed by \<^verbatim>\<open>prevSlide()\<close> returns and restores
  \<open>currentIndex\<close>, and so does \<^verbatim>\<open>prevSlide()\<close> followed by \<^verbatim>\<open>nextSlide()\<close>.
\<close>

theorem C9_next_prev_inverse:
  assumes "slides s \<noteq> []" and "dotsContainer s \<noteq> None" and "in_range (length (slides s)) (currentIndex s)"
  shows "(\<exists>s1 s2. nextSlide s = Inr s1 \<and> prevSlide s1 = Inr s2 \<and> currentIndex s2 = currentIndex s)
       \<and> (\<exists>s1 s2. prevSlide s = Inr s1 \<and> nextSlide s1 = Inr s2 \<and> currentIndex s2 = currentIndex s)"
proof -
  let ?n = "int (length (slides s))"
  from assms(3) obtain c where c: "currentIndex s = Num c" "0 \<le> c" "c < ?n"
    by (cases "currentIndex s") simp_all
  have n: "0 < ?n" using assms(1) by simp
  have rt: "((c + 1) mod ?n + (- 1)) mod ?n = c" "((c + (- 1)) mod ?n + 1) mod ?n = c"
    using c by (simp_all add: mod_add_left_eq mod_diff_left_eq)
  from nextSlide_index[OF c assms(2)] obtain s1 where
    s1: "nextSlide s = Inr s1" "currentIndex s1 = Num ((c + 1) mod ?n)"
        "length (slides s1) = length (slides s)" "dotsContainer s1 \<noteq> None" by blast
  have "0 \<le> (c + 1) mod ?n" "(c + 1) mod ?n < int (length (slides s1))"
    using n s1(3) by simp_all
  from prevSlide_index[OF s1(2) this s1(4)] obtain s2 where
    "prevSlide s1 = Inr s2" "currentIndex s2 = Num c"
    using s1(3) rt(1) by auto
  with s1(1) c(1) have a: "\<exists>s1 s2. nextSlide s = Inr s1 \<and> prevSlide s1 = Inr s2 \<and> currentIndex s2 = currentIndex s"
    by auto
  from prevSlide_index[OF c assms(2)] obtain t1 where
    t1: "prevSlide s = Inr t1" "currentIndex t1 = Num ((c + (- 1)) mod ?n)"
        "length (slides t1) = length (slides s)" "dotsContainer t1 \<noteq> None" by blast
  have "0 \<le> (c + (- 1)) mod ?n" "(c + (- 1)) mod ?n < int (length (slides t1))"
    using n t1(3) by simp_all
  from nextSlide_index[OF t1(2) this t1(4)] obtain t2 where
    "nextSlide t1 = Inr t2" "currentIndex t2 = Num c"
    using t1(3) rt(2) by auto
  with t1(1) c(1) have b: "\<exists>s1 s2. prevSlide s = Inr s1 \<and> nextSlide s1 = Inr s2 \<and> currentIndex s2 = currentIndex s"
    by auto
  from a b show ?thesis by blast
qed


text \<open>The theorem at the slider built from the three-slide page.\<close>

theorem C9_witness:
  "slides example_deck \<noteq> [] \<and> dotsContainer example_deck \<noteq> None
   \<and> in_range (length (slides example_deck)) (currentIndex example_deck)
   \<and> (\<exists>s1 s2. nextSlide example_deck = Inr s1 \<and> prevSlide s1 = Inr s2 \<and> currentIndex s2 = Num 0)
   \<and> (\<exists>s1 s2. prevSlide example_deck = Inr s1 \<and> nextSlide s1 = Inr s2 \<and> currentIndex s2 = Num 0)"
proof -
  have h1: "slides example_deck \<noteq> []" by (simp add: example_deck_def)
  have h2: "dotsContainer example_deck \<noteq> None" by (simp add: example_deck_def)
  have h3: "in_range (length (slides example_deck)) (currentIndex example_deck)"
    by (simp add: example_deck_def)
  have c: "currentIndex example_deck = Num 0" by (simp add: example_deck_def)
  show ?thesis
    using C9_next_prev_inverse[OF h1 h2 h3] h1 h2 h3 by (simp add: c)
qed

section \<open>showSlide with an index out of range\<close>

lemma array_index_None: "array_index n i = None \<longleftrightarrow> \<not> in_range n i"
  by (cases i) simp_all

lemma active_positions_removed: "active_positions (map (classList_remove ''active'') es) = []"
  by (simp add: active_positions_def filter_empty_conv)

text \<open>
  Claim C10. \<^verbatim>\<open>showSlide(index)\<close> with an index outside \<open>[0, N - 1]\<close> throws a
  TypeError, and not atomically: at the throw every slide has lost the class
  \<^verbatim>\<open>active\<close> and \<open>currentIndex\<close> is already \<open>index\<close>, so the slider is left with an
  index out of range and no active slide (the dots container is as it was).
\<close>

theorem C10_showSlide_out_of_range:
  assumes "\<not> in_range (length (slides s)) index"
  shows "\<exists>s'. showSlide index s = Inl (TypeError, s')
            \<and> s' = s\<lparr>slides := map (classList_remove ''active'') (slides s), currentIndex := index\<rparr>
            \<and> currentIndex s' = index
            \<and> \<not> in_range (length (slides s')) (currentIndex s')
            \<and> active_positions (slides s') = []"
proof -
  have "array_index (length (slides s)) index = None"
    using assms by (simp add: array_index_None)
  then have "showSlide index s =
      Inl (TypeError, s\<lparr>slides := map (classList_remove ''active'') (slides s), currentIndex := index\<rparr>)"
    by (simp add: showSlide_def Let_def)
  with assms show ?thesis by (simp add: active_positions_removed)
qed

text \<open>The theorem at the three-slide slider, with index 3.\<close>

theorem C10_witness:
  "\<not> in_range (length (slides example_deck)) (Num 3)
   \<and> (\<exists>s'. showSlide (Num 3) example_deck = Inl (TypeError, s')
          \<and> currentIndex s' = Num 3
          \<and> \<not> in_range (length (slides s')) (currentIndex s')
          \<and> active_positions (slides s') = []
          \<and> length (slides s') = 3)"
proof -
  have h: "\<not> in_range (length (slides example_deck)) (Num 3)"
    by (simp add: example_deck_def)
  from C10_showSlide_out_of_range[OF h] obtain s' where
    s': "showSlide (Num 3) example_deck = Inl (TypeError, s')"
        "s' = example_deck\<lparr>slides := map (classList_remove ''active'') (slides example_deck),
                            currentIndex := Num 3\<rparr>"
        "currentIndex s' = Num 3" "\<not> in_range (length (slides s')) (currentIndex s')"
        "active_positions (slides s') = []"
    by blast
  from s'(2) have "length (slides s') = 3" by (simp add: example_deck_def)
  with h s' show ?thesis by blast
qed

section \<open>Construction\<close>

lemma createDots_from_container:
  "dotsContainer s = Some cs \<Longrightarrow>
     createDots_from js s = Inr (s\<lparr>dotsContainer := Some (cs @ map new_dot js)\<rparr>)"
proof (induction js arbitrary: s cs)
  case Nil
  then show ?case by simp
next
  case (Cons j js)
  have "dotsContainer (s\<lparr>dotsContainer := Some (cs @ [new_dot j])\<rparr>) = Some (cs @ [new_dot j])"
    by simp
  from Cons.IH[OF this] Cons.prems show ?case by simp
qed

lemma createDots_from_null:
  "dotsContainer s = None \<Longrightarrow> js \<noteq> [] \<Longrightarrow> createDots_from js s = Inl (TypeError, s)"
  by (cases js) simp_all

lemma toggle_dots_append:
  "toggle_dots i cur (xs @ ys) =
     toggle_dots i cur xs @ toggle_dots (i + length (filter is_dot xs)) cur ys"
  by (induction xs arbitrary: i) simp_all

lemma listeners_toggle [simp]: "listeners (classList_toggle c b e) = listeners e"
  by (simp add: classList_toggle_def classList_add_def classList_remove_def)

lemma listeners_toggle_dots: "map listeners (toggle_dots i cur cs) = map listeners cs"
  by (induction cs arbitrary: i) simp_all

lemma is_dot_toggle_dots: "map is_dot (toggle_dots i cur cs) = map is_dot cs"
  by (induction cs arbitrary: i) simp_all

lemma is_dot_new_dot [simp]: "is_dot (new_dot j)"
  by (simp add: new_dot_def addEventListener_def classList_add_def classList_contains_def
      element_of_def)

lemma listeners_new_dot [simp]: "listeners (new_dot j) = [(''click'', On_showSlide j)]"
  by (simp add: new_dot_def addEventListener_def classList_add_def element_of_def)

lemma and_then_Inr [simp]: "and_then r Inr = r"
  by (cases r) (simp_all add: and_then_def)

lemma run_listeners_Nil: "run_listeners [] e = Inr"
  by (rule ext) simp

text \<open>What \<^verbatim>\<open>init\<close> leaves when the slider element, a slide and the dots container exist.\<close>

lemma init_wired:
  assumes "slider s = Some el" and "slides s \<noteq> []" and "dotsContainer s = Some cs"
  shows "init s =
     Inr (s\<lparr>dotsContainer := Some (toggle_dots 0 (Num 0) (cs @ map new_dot [0..<length (slides s)])),
            slides := (map (classList_remove ''active'') (slides s))
                        [0 := classList_add ''active'' (classList_remove ''active'' (slides s ! 0))],
            currentIndex := Num 0,
            prevBtn := map_option (addEventListener ''click'' On_prevSlide) (prevBtn s),
            nextBtn := map_option (addEventListener ''click'' On_nextSlide) (nextBtn s),
            document_listeners := document_listeners s @ [(''keydown'', On_keydown)],
            touchStartX := 0,
            touchEndX := 0,
            slider := Some (addEventListener ''touchend'' On_touchend
                             (addEventListener ''touchstart'' On_touchstart el))\<rparr>)"
proof -
  let ?cs = "cs @ map new_dot [0..<length (slides s)]"
  let ?s1 = "s\<lparr>dotsContainer := Some ?cs\<rparr>"
  have c: "createDots s = Inr ?s1"
    by (simp add: createDots_def createDots_from_container[OF assms(3)])
  have a: "array_index (length (slides ?s1)) (Num 0) = Some 0"
    using assms(2) by simp
  have d: "dotsContainer ?s1 = Some ?cs" by simp
  note sh = showSlide_in_range[OF a d]
  show ?thesis
    unfolding init_def c and_then_def
    by (cases "prevBtn s"; cases "nextBtn s") (simp_all add: sh Let_def assms(1))
qed


text \<open>
  Claim C8. When the page has the slider element (which the constructor's guard requires
  before it calls \<^verbatim>\<open>init\<close>), \<open>N \<ge> 1\<close> slides and a dots container, construction returns
  a slider whose dots container holds its former children followed by exactly \<open>N\<close> new
  dots in slide order; dot \<open>i\<close> carries one click listener, and a click on it is
  \<^verbatim>\<open>showSlide(i)\<close>. The slider displays index 0: \<open>currentIndex = 0\<close>, and slide 0 is the
  only active slide.
\<close>

theorem C8_construction:
  assumes "gallery_slider p \<noteq> None" and "gallery_slide p \<noteq> []" and "slider_dots p = Some cs0"
  shows "\<exists>s kids dots.
           new_GallerySlider p = Inr s
         \<and> length (slides s) = length (gallery_slide p)
         \<and> dotsContainer s = Some (kids @ dots)
         \<and> length kids = length cs0
         \<and> length dots = length (gallery_slide p)
         \<and> list_all is_dot dots
         \<and> map listeners dots = map (\<lambda>j. [(''click'', On_showSlide j)]) [0..<length (gallery_slide p)]
         \<and> (i < length (gallery_slide p) \<longrightarrow>
               dispatch (click (Dot (length cs0 + i))) s = showSlide (Num (int i)) s)
         \<and> currentIndex s = Num 0
         \<and> active_positions (slides s) = [0]
         \<and> deck s \<and> in_sync s"
proof -
  let ?n = "length (gallery_slide p)"
  let ?s0 = "constructor_fields p"
  let ?cs = "map element_of cs0"
  from assms(1) obtain cl where cl: "gallery_slider p = Some cl" by auto
  have sl: "slider ?s0 = Some (element_of cl)" by (simp add: constructor_fields_def cl)
  have ne: "slides ?s0 \<noteq> []" using assms(2) by (simp add: constructor_fields_def)
  have dc: "dotsContainer ?s0 = Some ?cs" by (simp add: constructor_fields_def assms(3))
  have len: "length (slides ?s0) = ?n" by (simp add: constructor_fields_def)
  define kids where "kids = toggle_dots 0 (Num 0) ?cs"
  define dots where "dots = toggle_dots (0 + length (filter is_dot ?cs)) (Num 0) (map new_dot [0..<?n])"
  define s where "s = ?s0\<lparr>dotsContainer := Some (kids @ dots),
            slides := (map (classList_remove ''active'') (slides ?s0))
                        [0 := classList_add ''active'' (classList_remove ''active'' (slides ?s0 ! 0))],
            currentIndex := Num 0,
            prevBtn := map_option (addEventListener ''click'' On_prevSlide) (prevBtn ?s0),
            nextBtn := map_option (addEventListener ''click'' On_nextSlide) (nextBtn ?s0),
            document_listeners := document_listeners ?s0 @ [(''keydown'', On_keydown)],
            touchStartX := 0,
            touchEndX := 0,
            slider := Some (addEventListener ''touchend'' On_touchend
                             (addEventListener ''touchstart'' On_touchstart (element_of cl)))\<rparr>"
  have run: "new_GallerySlider p = Inr s"
    using sl ne init_wired[OF sl ne dc]
    by (simp add: new_GallerySlider_def Let_def s_def kids_def dots_def toggle_dots_append len)
  have 1: "length (slides s) = ?n" by (simp add: s_def len)
  have 2: "dotsContainer s = Some (kids @ dots)" by (simp add: s_def)
  have 3: "length kids = length cs0" by (simp add: kids_def)
  have 4: "length dots = ?n" by (simp add: dots_def)
  have "map is_dot dots = map is_dot (map new_dot [0..<?n])"
    by (simp add: dots_def is_dot_toggle_dots)
  then have "map is_dot dots = map (\<lambda>j. True) [0..<?n]" by simp
  then have "\<forall>b \<in> set (map is_dot dots). b" by auto
  then have 5: "list_all is_dot dots" by (simp add: list_all_iff)
  have 6: "map listeners dots = map (\<lambda>j. [(''click'', On_showSlide j)]) [0..<?n]"
    by (simp add: dots_def listeners_toggle_dots comp_def)
  have 7: "dispatch (click (Dot (length cs0 + i))) s = showSlide (Num (int i)) s" if "i < ?n"
  proof -
    from 6 that 4 have "listeners (dots ! i) = [(''click'', On_showSlide i)]"
      by (metis (no_types, lifting) add_0 diff_zero length_map length_upt nth_map nth_upt)
    then have "listeners_at (Dot (length cs0 + i)) s = [(''click'', On_showSlide i)]"
      using that 3 4 by (simp add: listeners_at_def 2 nth_append)
    then show ?thesis by (simp add: dispatch_def click_def run_listeners_Nil)
  qed
  have 8: "currentIndex s = Num 0" by (simp add: s_def)
  let ?s1 = "?s0\<lparr>dotsContainer := Some (?cs @ map new_dot [0..<?n])\<rparr>"
  have d1: "deck ?s1"
    using ne by (simp add: deck_def indicators_def len)
  have lt: "0 < length (slides ?s1)" using ne by simp
  have a: "array_index (length (slides ?s1)) (Num (int 0)) = Some 0" using ne by simp
  from showSlide_displays[OF d1 lt] showSlide_in_range[OF a, of "?cs @ map new_dot [0..<?n]"]
  have shown: "displays 0 (?s1\<lparr>slides := (map (classList_remove ''active'') (slides ?s1))
                        [0 := classList_add ''active'' (classList_remove ''active'' (slides ?s1 ! 0))],
            currentIndex := Num (int 0),
            dotsContainer := Some (toggle_dots 0 (Num (int 0)) (?cs @ map new_dot [0..<?n]))\<rparr>)"
       "deck (?s1\<lparr>slides := (map (classList_remove ''active'') (slides ?s1))
                        [0 := classList_add ''active'' (classList_remove ''active'' (slides ?s1 ! 0))],
            currentIndex := Num (int 0),
            dotsContainer := Some (toggle_dots 0 (Num (int 0)) (?cs @ map new_dot [0..<?n]))\<rparr>)"
    by auto
  have 9: "displays 0 s"
    using shown(1) by (simp add: displays_def indicators_def s_def kids_def dots_def toggle_dots_append)
  have 10: "deck s"
    using shown(2) by (simp add: deck_def indicators_def s_def kids_def dots_def toggle_dots_append)
  from 9 have 11: "active_positions (slides s) = [0]" "in_sync s"
    by (simp_all add: displays_def in_sync_def)
  from run 1 2 3 4 5 6 7 8 10 11 show ?thesis by blast
qed


text \<open>The theorem at the three-slide page, with \<open>i = 1\<close>.\<close>

theorem C8_witness:
  "gallery_slider example_page \<noteq> None \<and> gallery_slide example_page \<noteq> []
   \<and> slider_dots example_page = Some []
   \<and> (\<exists>s kids dots.
           new_GallerySlider example_page = Inr s
         \<and> length (slides s) = 3
         \<and> dotsContainer s = Some (kids @ dots)
         \<and> length kids = 0
         \<and> length dots = 3
         \<and> list_all is_dot dots
         \<and> map listeners dots =
               [[(''click'', On_showSlide 0)], [(''click'', On_showSlide 1)], [(''click'', On_showSlide 2)]]
         \<and> dispatch (click (Dot 1)) s = showSlide (Num 1) s
         \<and> currentIndex s = Num 0
         \<and> active_positions (slides s) = [0]
         \<and> deck s \<and> in_sync s)"
proof -
  have h1: "gallery_slider example_page \<noteq> None" by (simp add: example_page_def)
  have h2: "gallery_slide example_page \<noteq> []" by (simp add: example_page_def)
  have h3: "slider_dots example_page = Some []" by (simp add: example_page_def)
  have n: "length (gallery_slide example_page) = 3" by (simp add: example_page_def)
  have u: "[0..<3] = [0, 1, 2]" by (simp add: upt_conv_Cons)
  show ?thesis
    using C8_construction[OF h1 h2 h3, of 1] h1 h2 h3 by (simp add: n u)
qed

text \<open>
  On a page with the slider element, a slide and the dots container, the controls, the
  arrow keys and the swipe reach the methods of the slider that construction returns.
\<close>

lemma constructed_navigation:
  assumes "gallery_slider p \<noteq> None" and "gallery_slide p \<noteq> []" and "slider_dots p \<noteq> None"
  shows "\<exists>s. new_GallerySlider p = Inr s
           \<and> (slider_btn_prev p \<noteq> None \<longrightarrow> dispatch (click Prev_button) s = prevSlide s)
           \<and> (slider_btn_next p \<noteq> None \<longrightarrow> dispatch (click Next_button) s = nextSlide s)
           \<and> dispatch (keydown ''ArrowLeft'') s = prevSlide s
           \<and> dispatch (keydown ''ArrowRight'') s = nextSlide s
           \<and> listeners_at Slider s = [(''touchstart'', On_touchstart), (''touchend'', On_touchend)]"
proof -
  let ?s0 = "constructor_fields p"
  from assms(1) obtain cl where cl: "gallery_slider p = Some cl" by auto
  from assms(3) obtain cs0 where cs0: "slider_dots p = Some cs0" by auto
  have sl: "slider ?s0 = Some (element_of cl)" by (simp add: constructor_fields_def cl)
  have ne: "slides ?s0 \<noteq> []" using assms(2) by (simp add: constructor_fields_def)
  have dc: "dotsContainer ?s0 = Some (map element_of cs0)" by (simp add: constructor_fields_def cs0)
  have pb: "prevBtn ?s0 = map_option element_of (slider_btn_prev p)"
    and nb: "nextBtn ?s0 = map_option element_of (slider_btn_next p)"
    and dl: "document_listeners ?s0 = []"
    by (simp_all add: constructor_fields_def)
  obtain s where run: "new_GallerySlider p = Inr s"
    and s: "prevBtn s = map_option (addEventListener ''click'' On_prevSlide) (prevBtn ?s0)"
           "nextBtn s = map_option (addEventListener ''click'' On_nextSlide) (nextBtn ?s0)"
           "document_listeners s = document_listeners ?s0 @ [(''keydown'', On_keydown)]"
           "slider s = Some (addEventListener ''touchend'' On_touchend
                              (addEventListener ''touchstart'' On_touchstart (element_of cl)))"
    using sl ne init_wired[OF sl ne dc] by (simp add: new_GallerySlider_def Let_def)
  have 1: "dispatch (click Prev_button) s = prevSlide s" if "slider_btn_prev p \<noteq> None"
    using that s(1) pb
    by (auto simp: dispatch_def click_def listeners_at_def addEventListener_def element_of_def
        run_listeners_Nil)
  have 2: "dispatch (click Next_button) s = nextSlide s" if "slider_btn_next p \<noteq> None"
    using that s(2) nb
    by (auto simp: dispatch_def click_def listeners_at_def addEventListener_def element_of_def
        run_listeners_Nil)
  have 3: "dispatch (keydown ''ArrowLeft'') s = prevSlide s"
    using s(3) dl
    by (simp add: dispatch_def keydown_def listeners_at_def run_listeners_Nil and_then_def
        split: sum.splits)
  have 4: "dispatch (keydown ''ArrowRight'') s = nextSlide s"
    using s(3) dl
    by (simp add: dispatch_def keydown_def listeners_at_def run_listeners_Nil and_then_def
        split: sum.splits)
  have 5: "listeners_at Slider s = [(''touchstart'', On_touchstart), (''touchend'', On_touchend)]"
    using s(4) by (simp add: listeners_at_def addEventListener_def element_of_def)
  from run 1 2 3 4 5 show ?thesis by blast
qed

section \<open>Swipe gestures\<close>


text \<open>What \<^verbatim>\<open>handleSwipe\<close> calls, by the size and the sign of the difference.\<close>

lemma handleSwipe_cases:
  "handleSwipe startX endX s =
     (if \<bar>startX - endX\<bar> \<le> 50 then Inr s
      else if startX > endX then nextSlide s else prevSlide s)"
  by (simp add: handleSwipe_def Let_def)












section \<open>A page with no slide\<close>

lemma listeners_at_constructor_fields: "listeners_at n (constructor_fields p) = []"
  by (cases n)
     (simp_all add: listeners_at_def constructor_fields_def element_of_def split: option.splits)

lemma dispatch_constructor_fields: "dispatch e (constructor_fields p) = Inr (constructor_fields p)"
  by (simp add: dispatch_def listeners_at_constructor_fields)

lemma tick_constructor_fields: "tick t (constructor_fields p) = Inr (constructor_fields p)"
  by (simp add: tick_def constructor_fields_def)

text \<open>
  Claim C4 says that on a slider constructed with no slide every call of
  \<^verbatim>\<open>nextSlide()\<close>, \<^verbatim>\<open>prevSlide()\<close> or \<^verbatim>\<open>showSlide()\<close> is a no-op that raises
  nothing. The methods have no guard of their own: on the slider built from the page
  with no slide, \<^verbatim>\<open>nextSlide()\<close> and \<^verbatim>\<open>prevSlide()\<close> compute a remainder by zero,
  assign \<open>currentIndex = NaN\<close> and throw a TypeError, and \<^verbatim>\<open>showSlide(0)\<close> throws one.
\<close>

theorem C4_zero_slides_counterexample:
  "new_GallerySlider empty_page = Inr (constructor_fields empty_page)
   \<and> slides (constructor_fields empty_page) = []
   \<and> nextSlide (constructor_fields empty_page)
       = Inl (TypeError, (constructor_fields empty_page)\<lparr>currentIndex := NaN\<rparr>)
   \<and> prevSlide (constructor_fields empty_page)
       = Inl (TypeError, (constructor_fields empty_page)\<lparr>currentIndex := NaN\<rparr>)
   \<and> showSlide (Num 0) (constructor_fields empty_page)
       = Inl (TypeError, constructor_fields empty_page)
   \<and> nextSlide (constructor_fields empty_page) \<noteq> Inr (constructor_fields empty_page)"
  by (simp add: new_GallerySlider_def constructor_fields_def empty_page_def nextSlide_def
      prevSlide_def showSlide_def Let_def)

text \<open>
  Claim C4, amended. On a page with no slide the constructor returns without calling
  \<^verbatim>\<open>init\<close>: the dots container holds what the page gave it (no indicator is created),
  no listener is registered on any node, and no timer is armed. So every event (a click on
  a control or a dot, a key press, a touch) and every timer tick is a no-op: it raises
  nothing and leaves the state as it is.
\<close>

theorem C4_zero_slides_inert:
  assumes "gallery_slide p = []"
  shows "new_GallerySlider p = Inr (constructor_fields p)
       \<and> dotsContainer (constructor_fields p) = map_option (map element_of) (slider_dots p)
       \<and> listeners_at n (constructor_fields p) = []
       \<and> dispatch e (constructor_fields p) = Inr (constructor_fields p)
       \<and> tick t (constructor_fields p) = Inr (constructor_fields p)"
proof -
  have "slides (constructor_fields p) = []"
    using assms by (simp add: constructor_fields_def)
  then have "new_GallerySlider p = Inr (constructor_fields p)"
    by (simp add: new_GallerySlider_def Let_def)
  moreover have "dotsContainer (constructor_fields p) = map_option (map element_of) (slider_dots p)"
    by (simp add: constructor_fields_def)
  ultimately show ?thesis
    by (simp add: listeners_at_constructor_fields dispatch_constructor_fields
        tick_constructor_fields)
qed

text \<open>The theorem at the page with no slide.\<close>

theorem C4_witness:
  "gallery_slide empty_page = []
   \<and> new_GallerySlider empty_page = Inr (constructor_fields empty_page)
   \<and> dotsContainer (constructor_fields empty_page) = Some []
   \<and> listeners_at Next_button (constructor_fields empty_page) = []
   \<and> dispatch (click Next_button) (constructor_fields empty_page) = Inr (constructor_fields empty_page)
   \<and> dispatch (keydown ''ArrowRight'') (constructor_fields empty_page)
       = Inr (constructor_fields empty_page)
   \<and> tick 1 (constructor_fields empty_page) = Inr (constructor_fields empty_page)"
proof -
  have h: "gallery_slide empty_page = []" by (simp add: empty_page_def)
  have d: "slider_dots empty_page = Some []" by (simp add: empty_page_def)
  show ?thesis
    using C4_zero_slides_inert[OF h, of Next_button "click Next_button" 1]
      C4_zero_slides_inert[OF h, of Next_button "keydown ''ArrowRight''" 1] h d
    by simp
qed



section \<open>A page without the dots container\<close>

lemma showSlide_null_container:
  assumes "dotsContainer s = None"
  shows "\<exists>s'. showSlide index s = Inl (TypeError, s')"
  using assms by (simp add: showSlide_def Let_def split: option.splits)

text \<open>
  Claim C3 asks that a missing dots container leave navigation working. It does not:
  with the slider element and \<open>N \<ge> 1\<close> slides but no \<^verbatim>\<open>.slider-dots\<close> element,
  \<^verbatim>\<open>createDots\<close> throws a TypeError at its first \<^verbatim>\<open>appendChild\<close>, the constructor
  throws with it before \<^verbatim>\<open>showSlide(0)\<close> and before any listener is registered, so no
  event reaches the slider; and \<^verbatim>\<open>showSlide\<close>, \<^verbatim>\<open>nextSlide\<close> and \<^verbatim>\<open>prevSlide\<close>
  called on the object throw a TypeError themselves.
\<close>

theorem C3_missing_dots_container:
  assumes "gallery_slider p \<noteq> None" and "gallery_slide p \<noteq> []" and "slider_dots p = None"
  shows "new_GallerySlider p = Inl (TypeError, constructor_fields p)
       \<and> listeners_at n (constructor_fields p) = []
       \<and> dispatch e (constructor_fields p) = Inr (constructor_fields p)
       \<and> (\<exists>s'. showSlide index (constructor_fields p) = Inl (TypeError, s'))
       \<and> (\<exists>s'. nextSlide (constructor_fields p) = Inl (TypeError, s'))
       \<and> (\<exists>s'. prevSlide (constructor_fields p) = Inl (TypeError, s'))"
proof -
  let ?s = "constructor_fields p"
  have sl: "slider ?s \<noteq> None" "slides ?s \<noteq> []" "dotsContainer ?s = None"
    using assms by (simp_all add: constructor_fields_def)
  then have "[0..<length (slides ?s)] \<noteq> []" by simp
  from createDots_from_null[OF sl(3) this] have "createDots ?s = Inl (TypeError, ?s)"
    by (simp add: createDots_def)
  then have "init ?s = Inl (TypeError, ?s)" by (simp add: init_def and_then_def)
  with sl have "new_GallerySlider p = Inl (TypeError, ?s)"
    by (simp add: new_GallerySlider_def Let_def)
  then show ?thesis
    using showSlide_null_container[OF sl(3)]
    by (simp add: listeners_at_constructor_fields dispatch_constructor_fields
        nextSlide_def prevSlide_def Let_def)
qed

text \<open>The theorem at the page with two slides and no dots container.\<close>

theorem C3_witness:
  "gallery_slider page_without_dots \<noteq> None \<and> gallery_slide page_without_dots \<noteq> []
   \<and> slider_dots page_without_dots = None
   \<and> new_GallerySlider page_without_dots = Inl (TypeError, constructor_fields page_without_dots)
   \<and> listeners_at Next_button (constructor_fields page_without_dots) = []
   \<and> dispatch (click Next_button) (constructor_fields page_without_dots)
       = Inr (constructor_fields page_without_dots)
   \<and> (\<exists>s'. showSlide (Num 1) (constructor_fields page_without_dots) = Inl (TypeError, s'))
   \<and> (\<exists>s'. nextSlide (constructor_fields page_without_dots) = Inl (TypeError, s'))
   \<and> (\<exists>s'. prevSlide (constructor_fields page_without_dots) = Inl (TypeError, s'))"
proof -
  have h1: "gallery_slider page_without_dots \<noteq> None" by (simp add: page_without_dots_def)
  have h2: "gallery_slide page_without_dots \<noteq> []" by (simp add: page_without_dots_def)
  have h3: "slider_dots page_without_dots = None" by (simp add: page_without_dots_def)
  show ?thesis
    using C3_missing_dots_container[OF h1 h2 h3, of Next_button "click Next_button" "Num 1"] h1 h2 h3
    by simp
qed


section \<open>The auto-play timer\<close>

lemma fold_max_ge: "a \<le> fold max ts (a::nat)"
proof (induction ts arbitrary: a)
  case Nil
  then show ?case by simp
next
  case (Cons t ts)
  have "a \<le> max t a" by simp
  also have "\<dots> \<le> fold max ts (max t a)" by (rule Cons.IH)
  finally show ?case by simp
qed

lemma fold_max_upper: "x \<in> set ts \<Longrightarrow> x \<le> fold max ts (a::nat)"
proof (induction ts arbitrary: a)
  case Nil
  then show ?case by simp
next
  case (Cons t ts)
  show ?case
  proof (cases "x = t")
    case True
    have "t \<le> max t a" by simp
    also have "\<dots> \<le> fold max ts (max t a)" by (rule fold_max_ge)
    finally show ?thesis using True by simp
  next
    case False
    with Cons show ?thesis by simp
  qed
qed

lemma setInterval_fresh: "setInterval ts \<notin> set ts" "setInterval ts \<noteq> 0"
proof -
  show "setInterval ts \<notin> set ts"
  proof
    assume "setInterval ts \<in> set ts"
    from fold_max_upper[OF this, of 0] show False by (simp add: setInterval_def)
  qed
  show "setInterval ts \<noteq> 0" by (simp add: setInterval_def)
qed

lemma stopAutoPlay_startAutoPlay:
  "timers (stopAutoPlay (startAutoPlay s)) = timers s"
  "autoPlayInterval (stopAutoPlay (startAutoPlay s)) = None"
  using setInterval_fresh[of "timers s"]
  by (simp_all add: stopAutoPlay_def startAutoPlay_def Let_def)

text \<open>
  Claim C7 asks that repeated \<^verbatim>\<open>startAutoPlay()\<close> calls leave at most one timer armed
  and that \<^verbatim>\<open>stopAutoPlay()\<close> leave none. A single start followed by a stop does so
  (\<open>stopAutoPlay_startAutoPlay\<close>), but \<^verbatim>\<open>startAutoPlay()\<close> overwrites the handle without
  clearing the timer it names: after two starts two distinct timers are armed, and the
  stop that follows clears only the second and the handle, so the first stays armed with
  no handle left to clear it.
\<close>

theorem C7_second_start_leaks_timer:
  "timers (startAutoPlay (startAutoPlay s))
     = timers s @ [setInterval (timers s), setInterval (timers s @ [setInterval (timers s)])]
   \<and> setInterval (timers s) \<noteq> setInterval (timers s @ [setInterval (timers s)])
   \<and> autoPlayInterval (startAutoPlay (startAutoPlay s))
       = Some (setInterval (timers s @ [setInterval (timers s)]))
   \<and> timers (stopAutoPlay (startAutoPlay (startAutoPlay s))) = timers s @ [setInterval (timers s)]
   \<and> autoPlayInterval (stopAutoPlay (startAutoPlay (startAutoPlay s))) = None
   \<and> timers (startAutoPlay (startAutoPlay example_deck)) = [1, 2]
   \<and> timers (stopAutoPlay (startAutoPlay (startAutoPlay example_deck))) = [1]"
proof -
  let ?t1 = "setInterval (timers s)"
  let ?t2 = "setInterval (timers s @ [?t1])"
  have f: "?t2 \<notin> set (timers s @ [?t1])" "?t2 \<noteq> 0" by (rule setInterval_fresh)+
  then have ne: "?t1 \<noteq> ?t2" "?t2 \<notin> set (timers s)" by auto
  have a: "timers (startAutoPlay (startAutoPlay s)) = timers s @ [?t1, ?t2]"
    by (simp add: startAutoPlay_def Let_def)
  have b: "autoPlayInterval (startAutoPlay (startAutoPlay s)) = Some ?t2"
    by (simp add: startAutoPlay_def Let_def)
  have c: "timers (stopAutoPlay (startAutoPlay (startAutoPlay s))) = timers s @ [?t1]"
    using f(2) ne by (simp add: stopAutoPlay_def a b)
  have d: "autoPlayInterval (stopAutoPlay (startAutoPlay (startAutoPlay s))) = None"
    using f(2) by (simp add: stopAutoPlay_def b)
  have e: "timers (startAutoPlay (startAutoPlay example_deck)) = [1, 2]"
    "timers (stopAutoPlay (startAutoPlay (startAutoPlay example_deck))) = [1]"
    by (simp_all add: startAutoPlay_def stopAutoPlay_def setInterval_def Let_def example_deck_def)
  from a b c d e ne(1) show ?thesis by simp
qed

end
